theory Spec2Isabelle
  imports Main
begin

section \<open>Data model (types.ts)\<close>

text \<open>
  The \<^verbatim>\<open>Photo\<close> interface. The \<^verbatim>\<open>File\<close> object is an opaque handle, a number here.
  The optional field \<^verbatim>\<open>error?: string\<close> is an option. The fields \<^verbatim>\<open>id\<close> and
  \<^verbatim>\<open>file\<close> are named \<open>id_photo\<close> and \<open>file_photo\<close>: \<open>id\<close> is the identity function
  of HOL and \<open>file\<close> an Isabelle keyword.
\<close>

type_synonym file_handle = nat

record photo =
  id_photo :: string
  src :: string
  file_photo :: file_handle
  title :: string
  caption :: string
  album :: string
  tags :: "string list"
  isLoading :: bool
  error :: "string option"

text \<open>
  JavaScript truthiness of an optional string, as in \<^verbatim>\<open>photo.error ? ... : ...\<close>:
  \<^verbatim>\<open>undefined\<close> and the empty string are falsy.
\<close>

definition truthy :: "string option \<Rightarrow> bool" where
  "truthy v = (case v of None \<Rightarrow> False | Some s \<Rightarrow> s \<noteq> [])"

section \<open>String.prototype.trim\<close>

text \<open>
  \<^verbatim>\<open>trim\<close> removes white space and line terminators from both ends. A \<open>char\<close> stands
  for a code unit below 256; the white space of ECMAScript in that range is TAB, LF, VT,
  FF, CR, SPACE and NBSP.
\<close>

definition is_ws :: "char \<Rightarrow> bool" where
  "is_ws c = (of_char c \<in> {9, 10, 11, 12, 13, 32, 160 :: nat})"

definition trim :: "string \<Rightarrow> string" where
  "trim s = rev (dropWhile is_ws (rev (dropWhile is_ws s)))"

section \<open>The registry updaters of App (the functions passed to setPhotos)\<close>

text \<open>The result of \<^verbatim>\<open>generatePhotoDetails\<close> as \<^verbatim>\<open>processPhotoContent\<close> destructures it.\<close>

record details =
  d_title :: string
  d_caption :: string
  d_album :: string
  d_tags :: "string list"

text \<open>What a \<^verbatim>\<open>catch (error)\<close> clause receives: an \<^verbatim>\<open>Error\<close> with its message, or any other value.\<close>

datatype thrown = ErrorObj string | OtherValue

definition errorMessage :: "thrown \<Rightarrow> string" where
  "errorMessage e = (case e of ErrorObj m \<Rightarrow> m | OtherValue \<Rightarrow> ''An unknown error occurred.'')"

text \<open>processPhotoContent, the \<^verbatim>\<open>try\<close> branch:
  \<^verbatim>\<open>prevPhotos.map(p => p.id === newPhoto.id ? { ...p, title, caption, album, tags, isLoading: false } : p)\<close>\<close>

definition enrich_success :: "string \<Rightarrow> details \<Rightarrow> photo list \<Rightarrow> photo list" where
  "enrich_success i d prevPhotos =
     map (\<lambda>p. if id_photo p = i
               then p\<lparr>title := d_title d, caption := d_caption d, album := d_album d,
                      tags := d_tags d, isLoading := False\<rparr>
               else p) prevPhotos"

text \<open>processPhotoContent, the \<^verbatim>\<open>catch\<close> branch:
  \<^verbatim>\<open>prevPhotos.map(p => p.id === newPhoto.id ? { ...p, album: 'Uncategorized', tags: [], error: errorMessage, isLoading: false } : p)\<close>\<close>

definition enrich_failure :: "string \<Rightarrow> thrown \<Rightarrow> photo list \<Rightarrow> photo list" where
  "enrich_failure i e prevPhotos =
     map (\<lambda>p. if id_photo p = i
               then p\<lparr>album := ''Uncategorized'', tags := [], error := Some (errorMessage e),
                      isLoading := False\<rparr>
               else p) prevPhotos"

text \<open>How the promise of \<^verbatim>\<open>generatePhotoDetails\<close> settles.\<close>

datatype outcome = Resolved details | Rejected thrown

definition applyEnrichment :: "string \<Rightarrow> outcome \<Rightarrow> photo list \<Rightarrow> photo list" where
  "applyEnrichment i r prevPhotos =
     (case r of Resolved d \<Rightarrow> enrich_success i d prevPhotos
              | Rejected e \<Rightarrow> enrich_failure i e prevPhotos)"

text \<open>handleFilesSelected: one record per file. \<^verbatim>\<open>crypto.randomUUID()\<close> and
  \<^verbatim>\<open>URL.createObjectURL(file)\<close> are not functions of the program state: their results
  come with the file.\<close>

record upload =
  u_id :: string
  u_src :: string
  u_file :: file_handle

definition newPhoto :: "upload \<Rightarrow> photo" where
  "newPhoto u = \<lparr>id_photo = u_id u, src = u_src u, file_photo = u_file u, title = [], caption = [],
                 album = [], tags = [], isLoading = True, error = None\<rparr>"

definition add_photos :: "upload list \<Rightarrow> photo list \<Rightarrow> photo list" where
  "add_photos files prevPhotos = prevPhotos @ map newPhoto files"

text \<open>handleTitleChange, handleCaptionChange, handleTagsChange.\<close>

definition handleTitleChange :: "string \<Rightarrow> string \<Rightarrow> photo list \<Rightarrow> photo list" where
  "handleTitleChange photoId newTitle prevPhotos =
     map (\<lambda>p. if id_photo p = photoId then p\<lparr>title := newTitle\<rparr> else p) prevPhotos"

definition handleCaptionChange :: "string \<Rightarrow> string \<Rightarrow> photo list \<Rightarrow> photo list" where
  "handleCaptionChange photoId newCaption prevPhotos =
     map (\<lambda>p. if id_photo p = photoId then p\<lparr>caption := newCaption\<rparr> else p) prevPhotos"

definition handleTagsChange :: "string \<Rightarrow> string list \<Rightarrow> photo list \<Rightarrow> photo list" where
  "handleTagsChange photoId newTags prevPhotos =
     map (\<lambda>p. if id_photo p = photoId then p\<lparr>tags := newTags\<rparr> else p) prevPhotos"

text \<open>confirmDelete: \<^verbatim>\<open>if (!photoToDelete) return;\<close> then the filter. \<^verbatim>\<open>null\<close> and the
  empty string are falsy.\<close>

definition confirmDelete :: "string option \<Rightarrow> photo list \<Rightarrow> photo list" where
  "confirmDelete photoToDelete prevPhotos =
     (if \<not> truthy photoToDelete then prevPhotos
      else filter (\<lambda>p. Some (id_photo p) \<noteq> photoToDelete) prevPhotos)"

text \<open>handleAlbumNameChange.\<close>

definition handleAlbumNameChange :: "string \<Rightarrow> string \<Rightarrow> photo list \<Rightarrow> photo list" where
  "handleAlbumNameChange oldName newName prevPhotos =
     (let trimmedNewName = trim newName in
      if trimmedNewName = [] then prevPhotos
      else map (\<lambda>p. if album p = oldName then p\<lparr>album := trimmedNewName\<rparr> else p) prevPhotos)"

text \<open>confirmNewPhotobook: \<^verbatim>\<open>setPhotos([])\<close>. handleImportSelected, when the promise of
  \<^verbatim>\<open>importPhotobook\<close> resolves: a non-empty result is appended, an empty one only alerts.\<close>

definition confirmNewPhotobook :: "photo list \<Rightarrow> photo list" where
  "confirmNewPhotobook prevPhotos = []"

definition import_photos :: "photo list \<Rightarrow> photo list \<Rightarrow> photo list" where
  "import_photos imported prevPhotos =
     (if length imported > 0 then prevPhotos @ imported else prevPhotos)"

section \<open>The state of App and its handlers\<close>

text \<open>
  The state hooks of \<^verbatim>\<open>App\<close> that the registry and the progress counter depend on
  (\<^verbatim>\<open>isSaving\<close>, \<^verbatim>\<open>isImporting\<close>, \<^verbatim>\<open>isNewPhotobookModalOpen\<close> and the theme only gate
  the rendering). The field \<^verbatim>\<open>total\<close> is named \<open>total_count\<close>: \<open>total\<close> is a HOL
  constant. \<open>pending\<close> is not a variable of the source: it lists the ids of the calls of
  \<^verbatim>\<open>processPhotoContent\<close> that are suspended at \<^verbatim>\<open>await generatePhotoDetails\<close>, which
  the JavaScript runtime holds as promises.
\<close>

record progress =
  completed :: nat
  total_count :: nat

record album_edit =
  e_oldName :: string
  e_newName :: string

record app =
  photos :: "photo list"
  photoToDelete :: "string option"
  editingAlbum :: "album_edit option"
  processingProgress :: progress
  pending :: "string list"

definition init_app :: app where
  "init_app = \<lparr>photos = [], photoToDelete = None, editingAlbum = None,
               processingProgress = \<lparr>completed = 0, total_count = 0\<rparr>, pending = []\<rparr>"

text \<open>handleFilesSelected: the counter, the registry, then one call of
  \<^verbatim>\<open>processPhotoContent\<close> per new photo, each suspended at its \<^verbatim>\<open>await\<close>.\<close>

definition handleFilesSelected :: "upload list \<Rightarrow> app \<Rightarrow> app" where
  "handleFilesSelected files s =
     s\<lparr>processingProgress :=
          \<lparr>completed = completed (processingProgress s),
           total_count = total_count (processingProgress s) + length (map newPhoto files)\<rparr>,
       photos := add_photos files (photos s),
       pending := pending s @ map (id_photo \<circ> newPhoto) files\<rparr>"

text \<open>processPhotoContent resumed: the \<^verbatim>\<open>try\<close> or the \<^verbatim>\<open>catch\<close> updater, then the
  \<^verbatim>\<open>finally\<close> block. It can only resume for a call that is suspended.\<close>

definition processPhotoContent_settled :: "string \<Rightarrow> outcome \<Rightarrow> app \<Rightarrow> app option" where
  "processPhotoContent_settled i r s =
     (if i \<in> set (pending s)
      then Some (s\<lparr>photos := applyEnrichment i r (photos s),
                   processingProgress :=
                     (processingProgress s)\<lparr>completed := completed (processingProgress s) + 1\<rparr>,
                   pending := remove1 i (pending s)\<rparr>)
      else None)"

text \<open>The progress effect: when \<^verbatim>\<open>total > 0 && completed >= total\<close> it starts a timer of
  1500 ms whose callback resets the counter; the cleanup of the effect clears the timer
  whenever \<^verbatim>\<open>processingProgress\<close> changes. So the callback runs only in a state where
  the condition still holds.\<close>

definition progress_timeout :: "app \<Rightarrow> app option" where
  "progress_timeout s =
     (if total_count (processingProgress s) > 0
         \<and> completed (processingProgress s) \<ge> total_count (processingProgress s)
      then Some (s\<lparr>processingProgress := \<lparr>completed = 0, total_count = 0\<rparr>\<rparr>)
      else None)"

definition handleDeletePhoto :: "string \<Rightarrow> app \<Rightarrow> app" where
  "handleDeletePhoto photoId s = s\<lparr>photoToDelete := Some photoId\<rparr>"

definition confirmDelete_app :: "app \<Rightarrow> app" where
  "confirmDelete_app s =
     (if \<not> truthy (photoToDelete s) then s
      else s\<lparr>photos := confirmDelete (photoToDelete s) (photos s), photoToDelete := None\<rparr>)"

definition cancelDelete :: "app \<Rightarrow> app" where
  "cancelDelete s = s\<lparr>photoToDelete := None\<rparr>"

definition handleAlbumNameChange_app :: "string \<Rightarrow> string \<Rightarrow> app \<Rightarrow> app" where
  "handleAlbumNameChange_app oldName newName s =
     s\<lparr>photos := handleAlbumNameChange oldName newName (photos s), editingAlbum := None\<rparr>"

definition handleSaveAlbumName :: "app \<Rightarrow> app" where
  "handleSaveAlbumName s =
     (case editingAlbum s of
        Some e \<Rightarrow> handleAlbumNameChange_app (e_oldName e) (e_newName e) s
      | None \<Rightarrow> s)"

text \<open>
  Modelled from the spec: \<^verbatim>\<open>importPhotobook\<close> (services/photobookGenerator) is not among
  the sources. The spec's document codec contract: import reconstructs records with
  \<^verbatim>\<open>isEnriching = false\<close> and no error.
\<close>

definition imported_ok :: "photo \<Rightarrow> bool" where
  "imported_ok p = (\<not> isLoading p \<and> error p = None)"

text \<open>What can happen to App: the user intents that reach the registry or the counter,
  and the two asynchronous completions.\<close>

datatype event =
    FilesSelected "upload list"
  | Settled string outcome
  | ProgressTimeout
  | TitleChange string string
  | CaptionChange string string
  | TagsChange string "string list"
  | DeletePhoto string
  | ConfirmDelete
  | CancelDelete
  | StartEditAlbum string
  | AlbumInput string
  | SaveAlbumName
  | CancelEditAlbum
  | ConfirmNewPhotobook
  | Imported "photo list"

fun step :: "app \<Rightarrow> event \<Rightarrow> app option" where
  "step s (FilesSelected files) = Some (handleFilesSelected files s)"
| "step s (Settled i r) = processPhotoContent_settled i r s"
| "step s ProgressTimeout = progress_timeout s"
| "step s (TitleChange i v) = Some (s\<lparr>photos := handleTitleChange i v (photos s)\<rparr>)"
| "step s (CaptionChange i v) = Some (s\<lparr>photos := handleCaptionChange i v (photos s)\<rparr>)"
| "step s (TagsChange i v) = Some (s\<lparr>photos := handleTagsChange i v (photos s)\<rparr>)"
| "step s (DeletePhoto i) = Some (handleDeletePhoto i s)"
| "step s ConfirmDelete = Some (confirmDelete_app s)"
| "step s CancelDelete = Some (cancelDelete s)"
| "step s (StartEditAlbum n) = Some (s\<lparr>editingAlbum := Some \<lparr>e_oldName = n, e_newName = n\<rparr>\<rparr>)"
| "step s (AlbumInput v) =
     (case editingAlbum s of
        Some e \<Rightarrow> Some (s\<lparr>editingAlbum := Some (e\<lparr>e_newName := v\<rparr>)\<rparr>)
      | None \<Rightarrow> None)"
| "step s SaveAlbumName = Some (handleSaveAlbumName s)"
| "step s CancelEditAlbum = Some (s\<lparr>editingAlbum := None\<rparr>)"
| "step s ConfirmNewPhotobook = Some (s\<lparr>photos := confirmNewPhotobook (photos s)\<rparr>)"
| "step s (Imported recs) =
     (if list_all imported_ok recs then Some (s\<lparr>photos := import_photos recs (photos s)\<rparr>)
      else None)"

fun run :: "app \<Rightarrow> event list \<Rightarrow> app option" where
  "run s [] = Some s"
| "run s (ev # evs) = (case step s ev of None \<Rightarrow> None | Some s' \<Rightarrow> run s' evs)"

section \<open>The album projection (the useMemo of App)\<close>

text \<open>\<^verbatim>\<open>photo.album || (photo.isLoading ? '...' : 'Uncategorized')\<close>: the empty string is falsy.\<close>

definition albumName :: "photo \<Rightarrow> string" where
  "albumName p = (if album p \<noteq> [] then album p else if isLoading p then ''...'' else ''Uncategorized'')"

text \<open>
  \<^verbatim>\<open>grouped\<close> is an object literal \<^verbatim>\<open>{}\<close>. Its own properties are an association list in
  the order of their creation. Its prototype is \<^verbatim>\<open>Object.prototype\<close>, so \<^verbatim>\<open>grouped[k]\<close>
  for a key that is not an own property finds the property of that name on
  \<^verbatim>\<open>Object.prototype\<close>, if there is one: a function, or for \<^verbatim>\<open>__proto__\<close> the prototype
  itself. Each of them is truthy and has no \<^verbatim>\<open>push\<close> method.
\<close>

definition object_prototype_keys :: "string list" where
  "object_prototype_keys =
     [''constructor'', ''__defineGetter__'', ''__defineSetter__'', ''hasOwnProperty'',
      ''__lookupGetter__'', ''__lookupSetter__'', ''isPrototypeOf'', ''propertyIsEnumerable'',
      ''toString'', ''valueOf'', ''__proto__'', ''toLocaleString'']"

datatype js_error = TypeError

type_synonym groups = "(string \<times> photo list) list"

text \<open>\<^verbatim>\<open>grouped[albumName].push(photo)\<close> on an own property: the array grows in place.\<close>

definition push_to :: "string \<Rightarrow> photo \<Rightarrow> groups \<Rightarrow> groups" where
  "push_to n p g = map (\<lambda>(k, arr). if k = n then (k, arr @ [p]) else (k, arr)) g"

text \<open>The body of \<^verbatim>\<open>photos.forEach\<close>. With an own property the test \<^verbatim>\<open>!grouped[albumName]\<close>
  is false (an array is truthy) and the photo is pushed. With an inherited one the test is
  false too, and \<^verbatim>\<open>push\<close> is not a function: a TypeError. Otherwise the property is
  created with an empty array and the photo pushed.\<close>

definition group_photo :: "photo \<Rightarrow> groups \<Rightarrow> js_error + groups" where
  "group_photo p g =
     (let n = albumName p in
      case map_of g n of
        Some arr \<Rightarrow> Inr (push_to n p g)
      | None \<Rightarrow> if n \<in> set object_prototype_keys then Inl TypeError
                else Inr (g @ [(n, [p])]))"

fun group_photos :: "photo list \<Rightarrow> groups \<Rightarrow> js_error + groups" where
  "group_photos [] g = Inr g"
| "group_photos (p # ps) g =
     (case group_photo p g of Inl e \<Rightarrow> Inl e | Inr g' \<Rightarrow> group_photos ps g')"

text \<open>
  \<^verbatim>\<open>Object.entries\<close>: the own properties whose key is an array index (a canonical
  decimal numeral below \<open>2^32 - 1\<close>) in ascending numeric order, then the others in the
  order of their creation.
\<close>

definition is_digit :: "char \<Rightarrow> bool" where
  "is_digit c = (48 \<le> (of_char c :: nat) \<and> (of_char c :: nat) \<le> 57)"

definition index_value :: "string \<Rightarrow> nat" where
  "index_value k = foldl (\<lambda>a c. 10 * a + (of_char c - 48)) 0 k"

definition is_array_index :: "string \<Rightarrow> bool" where
  "is_array_index k =
     (k \<noteq> [] \<and> list_all is_digit k \<and> (k = ''0'' \<or> hd k \<noteq> CHR ''0'')
      \<and> index_value k < 2 ^ 32 - 1)"

definition object_entries :: "groups \<Rightarrow> groups" where
  "object_entries g =
     sort_key (index_value \<circ> fst) (filter (is_array_index \<circ> fst) g)
     @ filter (\<lambda>e. \<not> is_array_index (fst e)) g"

text \<open>
  \<^verbatim>\<open>.sort(([a], [b]) => a.localeCompare(b))\<close>. The comparison of the host's locale is a
  parameter \<open>localeCompare\<close>, negative, zero or positive. \<^verbatim>\<open>Array.prototype.sort\<close> is
  stable: here an insertion sort that puts an entry before the first one it does not
  follow.
\<close>

fun insert_entry :: "(string \<Rightarrow> string \<Rightarrow> int) \<Rightarrow> string \<times> 'a \<Rightarrow> (string \<times> 'a) list \<Rightarrow> (string \<times> 'a) list" where
  "insert_entry localeCompare x [] = [x]"
| "insert_entry localeCompare x (y # ys) =
     (if localeCompare (fst x) (fst y) \<le> 0 then x # y # ys
      else y # insert_entry localeCompare x ys)"

definition sort_entries :: "(string \<Rightarrow> string \<Rightarrow> int) \<Rightarrow> (string \<times> 'a) list \<Rightarrow> (string \<times> 'a) list" where
  "sort_entries localeCompare xs = foldr (insert_entry localeCompare) xs []"

definition albums :: "(string \<Rightarrow> string \<Rightarrow> int) \<Rightarrow> photo list \<Rightarrow> js_error + groups" where
  "albums localeCompare ps =
     (case group_photos ps [] of
        Inl e \<Rightarrow> Inl e
      | Inr grouped \<Rightarrow> Inr (sort_entries localeCompare (object_entries grouped)))"

text \<open>A comparison that \<^verbatim>\<open>sort\<close> can order by: total and transitive.\<close>

definition consistent :: "(string \<Rightarrow> string \<Rightarrow> int) \<Rightarrow> bool" where
  "consistent cmp =
     ((\<forall>a b. cmp a b \<le> 0 \<or> cmp b a \<le> 0)
      \<and> (\<forall>a b c. cmp a b \<le> 0 \<and> cmp b c \<le> 0 \<longrightarrow> cmp a c \<le> 0))"

fun sorted_by :: "(string \<Rightarrow> string \<Rightarrow> int) \<Rightarrow> string list \<Rightarrow> bool" where
  "sorted_by cmp [] = True"
| "sorted_by cmp (x # xs) = (list_all (\<lambda>y. cmp x y \<le> 0) xs \<and> sorted_by cmp xs)"

section \<open>PhotoCard: the editing handlers\<close>

text \<open>The local state of a card, and the calls it makes on the callbacks App gave it.\<close>

record card =
  isEditingCaption :: bool
  editedCaption :: string
  isEditingTitle :: bool
  editedTitle :: string
  tagInput :: string

datatype callback =
    OnCaptionChange string string
  | OnTitleChange string string
  | OnTagsChange string "string list"
  | OnDelete string

definition handleSaveCaption :: "photo \<Rightarrow> card \<Rightarrow> card \<times> callback list" where
  "handleSaveCaption ph c =
     (c\<lparr>isEditingCaption := False\<rparr>,
      if trim (editedCaption c) \<noteq> caption ph
      then [OnCaptionChange (id_photo ph) (trim (editedCaption c))] else [])"

definition handleCancelCaption :: "photo \<Rightarrow> card \<Rightarrow> card \<times> callback list" where
  "handleCancelCaption ph c = (c\<lparr>editedCaption := caption ph, isEditingCaption := False\<rparr>, [])"

record key_event =
  key :: string
  metaKey :: bool
  ctrlKey :: bool

text \<open>The two tests of handleCaptionKeyDown exclude each other (the key is one string),
  so the second is an else branch here; the same for handleTitleKeyDown.\<close>

definition handleCaptionKeyDown :: "photo \<Rightarrow> key_event \<Rightarrow> card \<Rightarrow> card \<times> callback list" where
  "handleCaptionKeyDown ph ev c =
     (if key ev = ''Escape'' then handleCancelCaption ph c
      else if key ev = ''Enter'' \<and> (metaKey ev \<or> ctrlKey ev) then handleSaveCaption ph c
      else (c, []))"

definition handleSaveTitle :: "photo \<Rightarrow> card \<Rightarrow> card \<times> callback list" where
  "handleSaveTitle ph c =
     (c\<lparr>isEditingTitle := False\<rparr>,
      if trim (editedTitle c) \<noteq> [] \<and> trim (editedTitle c) \<noteq> title ph
      then [OnTitleChange (id_photo ph) (trim (editedTitle c))] else [])"

definition handleCancelTitle :: "photo \<Rightarrow> card \<Rightarrow> card \<times> callback list" where
  "handleCancelTitle ph c = (c\<lparr>editedTitle := title ph, isEditingTitle := False\<rparr>, [])"

definition handleTitleKeyDown :: "photo \<Rightarrow> key_event \<Rightarrow> card \<Rightarrow> card \<times> callback list" where
  "handleTitleKeyDown ph ev c =
     (if key ev = ''Enter'' then handleSaveTitle ph c
      else if key ev = ''Escape'' then handleCancelTitle ph c
      else (c, []))"

definition handleAddTag :: "photo \<Rightarrow> card \<Rightarrow> card \<times> callback list" where
  "handleAddTag ph c =
     (let newTag = trim (tagInput c) in
      (c\<lparr>tagInput := []\<rparr>,
       if newTag \<noteq> [] \<and> newTag \<notin> set (tags ph)
       then [OnTagsChange (id_photo ph) (tags ph @ [newTag])] else []))"

definition handleRemoveTag :: "photo \<Rightarrow> string \<Rightarrow> card \<Rightarrow> card \<times> callback list" where
  "handleRemoveTag ph tagToRemove c =
     (c, [OnTagsChange (id_photo ph) (filter (\<lambda>tag. tag \<noteq> tagToRemove) (tags ph))])"

text \<open>App renders each card with \<^verbatim>\<open>onCaptionChange={handleCaptionChange}\<close>,
  \<^verbatim>\<open>onTitleChange={handleTitleChange}\<close>, \<^verbatim>\<open>onTagsChange={handleTagsChange}\<close> and
  \<^verbatim>\<open>onDelete={handleDeletePhoto}\<close>; the last one only opens the confirmation.\<close>

fun deliver :: "callback \<Rightarrow> photo list \<Rightarrow> photo list" where
  "deliver (OnCaptionChange i v) ps = handleCaptionChange i v ps"
| "deliver (OnTitleChange i v) ps = handleTitleChange i v ps"
| "deliver (OnTagsChange i v) ps = handleTagsChange i v ps"
| "deliver (OnDelete i) ps = ps"

text \<open>A handler of the card rendered for the \<open>k\<close>-th record of the registry: the card's
  \<^verbatim>\<open>photo\<close> prop is that record. There is no card beyond the end of the registry.\<close>

definition on_card ::
  "(photo \<Rightarrow> card \<Rightarrow> card \<times> callback list) \<Rightarrow> nat \<Rightarrow> card \<Rightarrow> photo list \<Rightarrow> card \<times> photo list" where
  "on_card handler k c ps =
     (if k < length ps
      then (fst (handler (ps ! k) c), foldl (\<lambda>acc cb. deliver cb acc) ps (snd (handler (ps ! k) c)))
      else (c, ps))"

section \<open>The enrichment client (services/geminiService.ts)\<close>

text \<open>A value of \<^verbatim>\<open>JSON.parse\<close>. The properties of an object are an association list
  with distinct keys; a number is not inspected by the code.\<close>

datatype json =
    JNull
  | JBool bool
  | JNum int
  | JStr string
  | JArr "json list"
  | JObj "(string \<times> json) list"

text \<open>What the \<^verbatim>\<open>try\<close> block can throw: the \<^verbatim>\<open>SyntaxError\<close> of \<^verbatim>\<open>JSON.parse\<close>, a
  \<^verbatim>\<open>TypeError\<close> of a property read on \<^verbatim>\<open>undefined\<close> or \<^verbatim>\<open>null\<close>, an \<^verbatim>\<open>Error\<close> with
  a message, or whatever the request to the service rejects with.\<close>

datatype exn = SyntaxError | TypeErr | ErrorWith string | ServiceError string

text \<open>What \<^verbatim>\<open>ai.models.generateContent\<close> (with the file read before it) gives: a rejection,
  a response whose \<^verbatim>\<open>text\<close> is undefined, or a response with its text.\<close>

datatype reply = RequestFailed exn | NoText | Text string

text \<open>\<^verbatim>\<open>result.k\<close> on a value other than \<^verbatim>\<open>null\<close>: the own property of an object, if
  any; \<^verbatim>\<open>undefined\<close> on an array, a string, a number or a boolean for the four keys
  read here (none of them is a property of a prototype).\<close>

definition read_prop :: "json \<Rightarrow> string \<Rightarrow> json option" where
  "read_prop v k = (case v of JObj fs \<Rightarrow> map_of fs k | _ \<Rightarrow> None)"

definition typeof_string :: "json option \<Rightarrow> bool" where
  "typeof_string v = (case v of Some (JStr _) \<Rightarrow> True | _ \<Rightarrow> False)"

definition isArray :: "json option \<Rightarrow> bool" where
  "isArray v = (case v of Some (JArr _) \<Rightarrow> True | _ \<Rightarrow> False)"

text \<open>The condition of line 60. Reading a property of \<^verbatim>\<open>null\<close> throws a TypeError, at the
  first read.\<close>

definition shape_ok :: "json \<Rightarrow> exn + bool" where
  "shape_ok result =
     (if result = JNull then Inl TypeErr
      else Inr (typeof_string (read_prop result ''title'')
                \<and> typeof_string (read_prop result ''caption'')
                \<and> typeof_string (read_prop result ''album'')
                \<and> isArray (read_prop result ''tags'')))"

definition try_block :: "(string \<Rightarrow> json option) \<Rightarrow> reply \<Rightarrow> exn + json" where
  "try_block json_parse rp =
     (case rp of
        RequestFailed e \<Rightarrow> Inl e
      | NoText \<Rightarrow> Inl TypeErr
      | Text t \<Rightarrow>
          (case json_parse (trim t) of
             None \<Rightarrow> Inl SyntaxError
           | Some result \<Rightarrow>
               (case shape_ok result of
                  Inl e \<Rightarrow> Inl e
                | Inr True \<Rightarrow> Inr result
                | Inr False \<Rightarrow> Inl (ErrorWith ''Invalid response format from AI.''))))"

text \<open>generatePhotoDetails. \<open>Inl m\<close> is a rejection with \<^verbatim>\<open>new Error(m)\<close>. \<^verbatim>\<open>JSON.parse\<close>
  and the environment variable are parameters. The \<^verbatim>\<open>catch\<close> clause receives every
  exception of the \<^verbatim>\<open>try\<close> block, the one thrown at line 63 included.\<close>

definition generatePhotoDetails ::
  "string option \<Rightarrow> (string \<Rightarrow> json option) \<Rightarrow> reply \<Rightarrow> string + json" where
  "generatePhotoDetails api_key json_parse rp =
     (if \<not> truthy api_key then Inl ''API_KEY environment variable is not set.''
      else case try_block json_parse rp of
             Inr result \<Rightarrow> Inr result
           | Inl e \<Rightarrow>
               if e = SyntaxError
               then Inl ''Failed to parse AI response. The format was not valid JSON.''
               else Inl ''Failed to generate content from AI. Please try again.'')"

text \<open>The shape the spec asks of a response: an object with the four fields, three
  strings and an array.\<close>

definition well_shaped :: "json \<Rightarrow> bool" where
  "well_shaped v =
     (case v of
        JObj fs \<Rightarrow>
          typeof_string (map_of fs ''title'') \<and> typeof_string (map_of fs ''caption'')
          \<and> typeof_string (map_of fs ''album'') \<and> isArray (map_of fs ''tags'')
      | _ \<Rightarrow> False)"

section \<open>Invariants of the state\<close>

text \<open>Every call of \<^verbatim>\<open>processPhotoContent\<close> that has not settled is still to be counted.\<close>

definition counter_inv :: "app \<Rightarrow> bool" where
  "counter_inv s =
     (completed (processingProgress s) + length (pending s) = total_count (processingProgress s))"

text \<open>The two conditions the card renders on: \<^verbatim>\<open>photo.isLoading\<close> and \<^verbatim>\<open>photo.error\<close>.\<close>

definition exclusive :: "photo \<Rightarrow> bool" where
  "exclusive p = (\<not> (isLoading p \<and> truthy (error p)))"

section \<open>Example values\<close>

definition ex_photo :: "string \<Rightarrow> string \<Rightarrow> bool \<Rightarrow> photo" where
  "ex_photo i a l = \<lparr>id_photo = i, src = ''blob:'' @ i, file_photo = 0, title = ''T'', caption = ''C'',
                     album = a, tags = [''beach''], isLoading = l, error = None\<rparr>"

definition ex_upload :: "string \<Rightarrow> upload" where
  "ex_upload i = \<lparr>u_id = i, u_src = ''blob:'' @ i, u_file = 0\<rparr>"

definition ex_details :: details where
  "ex_details = \<lparr>d_title = ''Dusk'', d_caption = ''The sun sets.'', d_album = ''Nature'',
                  d_tags = [''sunset'', ''sea'', ''sky'']\<rparr>"

definition ex_card :: card where
  "ex_card = \<lparr>isEditingCaption = True, editedCaption = '' A new caption '', isEditingTitle = True,
               editedTitle = ''  '', tagInput = '' sunset ''\<rparr>"

definition ex_trace :: "event list" where
  "ex_trace = [FilesSelected [ex_upload ''a'', ex_upload ''b''],
               Settled ''b'' (Rejected OtherValue),
               FilesSelected [ex_upload ''c''],
               Settled ''a'' (Resolved ex_details)]"

definition ex_state :: app where
  "ex_state = \<lparr>photos = [ex_photo ''a'' [] True], photoToDelete = None, editingAlbum = None,
               processingProgress = \<lparr>completed = 1, total_count = 2\<rparr>, pending = [''a'']\<rparr>"

definition ex_registry :: "photo list" where
  "ex_registry = [ex_photo ''a'' ''Nature'' False, ex_photo ''b'' ''Family'' False,
                  ex_photo ''c'' [] False, ex_photo ''d'' [] True,
                  ex_photo ''e'' ''Uncategorized'' False]"

text \<open>A comparison for the examples: by the code of the first character.\<close>

definition ex_compare :: "string \<Rightarrow> string \<Rightarrow> int" where
  "ex_compare a b = int (of_char (hd a)) - int (of_char (hd b))"

text \<open>\<^verbatim>\<open>JSON.parse\<close> on the texts of the examples; any other text is taken as not JSON.\<close>

definition ex_parse :: "string \<Rightarrow> json option" where
  "ex_parse t =
     (if t = ''{}'' then Some (JObj [])
      else if t = ''null'' then Some JNull
      else if t = ''[]'' then Some (JArr [])
      else None)"

section \<open>Enrichment results and the registry\<close>

lemma map_if_none:
  "(\<And>p. p \<in> set ps \<Longrightarrow> \<not> P p) \<Longrightarrow> map (\<lambda>p. if P p then f p else p) ps = ps"
  by (induction ps) simp_all

lemma applyEnrichment_absent:
  "i \<notin> id_photo ` set ps \<Longrightarrow> applyEnrichment i r ps = ps"
  by (cases r)
    (auto simp: applyEnrichment_def enrich_success_def enrich_failure_def intro!: map_if_none)

text \<open>
  C2. A record deleted while its enrichment request is in flight is not in the registry
  when the request settles: the enrichment result, success or failure, then leaves the
  registry as it is, and the deleted record does not come back. In the state of App:
  after the delete of \<open>x\<close> is confirmed, the request for \<open>x\<close> still settles (the step is
  defined, nothing is raised) and the registry after it is the registry before it. More
  generally a result for an id that no record carries changes nothing.
\<close>

theorem enrichment_after_delete_noop:
  "(x \<noteq> [] \<longrightarrow> applyEnrichment x r (confirmDelete (Some x) ps) = confirmDelete (Some x) ps
               \<and> x \<notin> id_photo ` set (applyEnrichment x r (confirmDelete (Some x) ps)))
   \<and> (x \<noteq> [] \<and> x \<in> set (pending s) \<longrightarrow>
        (\<exists>s1 s2. run s [DeletePhoto x, ConfirmDelete] = Some s1
                 \<and> step s1 (Settled x r) = Some s2
                 \<and> photos s2 = photos s1 \<and> x \<notin> id_photo ` set (photos s2)))
   \<and> (i \<notin> id_photo ` set ps \<longrightarrow> applyEnrichment i r ps = ps)"
proof -
  have absent: "x \<noteq> [] \<Longrightarrow> x \<notin> id_photo ` set (confirmDelete (Some x) qs)" for qs
    by (auto simp: confirmDelete_def truthy_def)
  have later: "x \<noteq> [] \<and> x \<in> set (pending s) \<longrightarrow>
        (\<exists>s1 s2. run s [DeletePhoto x, ConfirmDelete] = Some s1
                 \<and> step s1 (Settled x r) = Some s2
                 \<and> photos s2 = photos s1 \<and> x \<notin> id_photo ` set (photos s2))"
  proof
    assume a: "x \<noteq> [] \<and> x \<in> set (pending s)"
    let ?s1 = "confirmDelete_app (handleDeletePhoto x s)"
    let ?s2 = "?s1\<lparr>photos := applyEnrichment x r (photos ?s1),
                   processingProgress :=
                     (processingProgress ?s1)\<lparr>completed := completed (processingProgress ?s1) + 1\<rparr>,
                   pending := remove1 x (pending ?s1)\<rparr>"
    have run1: "run s [DeletePhoto x, ConfirmDelete] = Some ?s1"
      by simp
    have ph1: "photos ?s1 = confirmDelete (Some x) (photos s)" and pe1: "pending ?s1 = pending s"
      using a by (simp_all add: confirmDelete_app_def handleDeletePhoto_def truthy_def)
    have st: "step ?s1 (Settled x r) = Some ?s2"
      using a pe1 by (simp add: processPhotoContent_settled_def)
    have gone: "x \<notin> id_photo ` set (photos ?s1)"
      using a absent ph1 by simp
    then have same: "photos ?s2 = photos ?s1"
      by (simp add: applyEnrichment_absent)
    from run1 st same gone show "\<exists>s1 s2. run s [DeletePhoto x, ConfirmDelete] = Some s1
                 \<and> step s1 (Settled x r) = Some s2
                 \<and> photos s2 = photos s1 \<and> x \<notin> id_photo ` set (photos s2)"
      by (metis (no_types, lifting))
  qed
  show ?thesis
    using absent later by (simp add: applyEnrichment_absent)
qed

theorem enrichment_after_delete_noop_witness:
  "applyEnrichment ''a'' (Rejected OtherValue)
      (confirmDelete (Some ''a'') [ex_photo ''a'' [] True, ex_photo ''b'' [] True])
    = [ex_photo ''b'' [] True]
   \<and> ''a'' \<in> set (pending ex_state)
   \<and> (\<exists>s1 s2. run ex_state [DeletePhoto ''a'', ConfirmDelete] = Some s1
                 \<and> step s1 (Settled ''a'' (Rejected OtherValue)) = Some s2
                 \<and> photos s1 = [] \<and> photos s2 = [])
   \<and> applyEnrichment ''c'' (Rejected OtherValue) [ex_photo ''a'' [] True, ex_photo ''b'' [] True]
      = [ex_photo ''a'' [] True, ex_photo ''b'' [] True]"
proof -
  have p: "''a'' \<in> set (pending ex_state)"
    by (simp add: ex_state_def)
  have d: "run ex_state [DeletePhoto ''a'', ConfirmDelete] = Some s1 \<Longrightarrow> photos s1 = []" for s1
    by (auto simp: ex_state_def handleDeletePhoto_def confirmDelete_app_def confirmDelete_def
        truthy_def ex_photo_def)
  show ?thesis
    using enrichment_after_delete_noop [of "''a''" "Rejected OtherValue"
        "[ex_photo ''a'' [] True, ex_photo ''b'' [] True]" ex_state "''c''"] p d
    by (auto simp: confirmDelete_def truthy_def ex_photo_def)
qed

section \<open>The progress counter\<close>

lemma Suc_length_remove1: "i \<in> set xs \<Longrightarrow> Suc (length (remove1 i xs)) = length xs"
  by (induction xs) auto

lemma counter_step: "counter_inv s \<Longrightarrow> step s ev = Some s' \<Longrightarrow> counter_inv s'"
proof (cases ev)
  case (Settled i r)
  assume inv: "counter_inv s" and st: "step s ev = Some s'"
  from st Settled have mem: "i \<in> set (pending s)"
    by (simp add: processPhotoContent_settled_def split: if_splits)
  then have "Suc (length (remove1 i (pending s))) = length (pending s)"
    by (rule Suc_length_remove1)
  with inv st Settled mem show ?thesis
    by (auto simp: counter_inv_def processPhotoContent_settled_def)
next
  case ProgressTimeout
  assume inv: "counter_inv s" and st: "step s ev = Some s'"
  from st ProgressTimeout
  have guard: "total_count (processingProgress s) \<le> completed (processingProgress s)"
    and s': "s' = s\<lparr>processingProgress := \<lparr>completed = 0, total_count = 0\<rparr>\<rparr>"
    by (auto simp: progress_timeout_def split: if_splits)
  from inv guard have "length (pending s) = 0"
    unfolding counter_inv_def by arith
  with s' show ?thesis
    by (simp add: counter_inv_def)
qed (auto simp: counter_inv_def handleFilesSelected_def handleDeletePhoto_def
    confirmDelete_app_def cancelDelete_def handleSaveAlbumName_def handleAlbumNameChange_app_def
    split: if_splits option.splits)

lemma counter_run: "counter_inv s \<Longrightarrow> run s evs = Some s' \<Longrightarrow> counter_inv s'"
proof (induction evs arbitrary: s)
  case Nil
  then show ?case by simp
next
  case (Cons ev evs)
  then show ?case by (auto split: option.splits dest: counter_step)
qed

lemma run_ex_trace:
  "\<exists>t. run init_app ex_trace = Some t
       \<and> processingProgress t = \<lparr>completed = 2, total_count = 3\<rparr> \<and> pending t = [''c'']"
  by (simp add: ex_trace_def init_app_def handleFilesSelected_def processPhotoContent_settled_def
      ex_upload_def newPhoto_def add_photos_def applyEnrichment_def enrich_failure_def
      enrich_success_def)

text \<open>
  C1. A batch of N files adds exactly N to \<open>total\<close> and leaves \<open>completed\<close> as it is; each
  enrichment request that settles, with a result or with a failure, adds exactly one to
  \<open>completed\<close> and leaves \<open>total\<close> as it is, and every request still in flight can settle,
  in any order; in every state reached from the initial one \<open>completed \<le> total\<close>, the
  difference being the number of requests in flight. That holds on every trace without a
  reset of the counter, and also on the traces with the reset by the timer, which only
  runs when \<open>completed \<ge> total > 0\<close>.
\<close>

theorem progress_counter:
  "total_count (processingProgress (handleFilesSelected files s))
     = total_count (processingProgress s) + length files
   \<and> completed (processingProgress (handleFilesSelected files s)) = completed (processingProgress s)
   \<and> (processPhotoContent_settled i r s = Some s' \<longrightarrow>
        completed (processingProgress s') = completed (processingProgress s) + 1
        \<and> total_count (processingProgress s') = total_count (processingProgress s))
   \<and> (i \<in> set (pending s) \<longrightarrow> processPhotoContent_settled i r s \<noteq> None)
   \<and> (run init_app evs = Some t \<longrightarrow>
        completed (processingProgress t) \<le> total_count (processingProgress t)
        \<and> completed (processingProgress t) + length (pending t) = total_count (processingProgress t))"
proof -
  have batch: "total_count (processingProgress (handleFilesSelected files s))
       = total_count (processingProgress s) + length files
     \<and> completed (processingProgress (handleFilesSelected files s)) = completed (processingProgress s)"
    by (simp add: handleFilesSelected_def)
  have settle: "processPhotoContent_settled i r s = Some s' \<longrightarrow>
        completed (processingProgress s') = completed (processingProgress s) + 1
        \<and> total_count (processingProgress s') = total_count (processingProgress s)"
    by (auto simp: processPhotoContent_settled_def split: if_splits)
  have enabled: "i \<in> set (pending s) \<longrightarrow> processPhotoContent_settled i r s \<noteq> None"
    by (simp add: processPhotoContent_settled_def)
  have init: "counter_inv init_app"
    by (simp add: counter_inv_def init_app_def)
  have reach: "run init_app evs = Some t \<longrightarrow>
        completed (processingProgress t) \<le> total_count (processingProgress t)
        \<and> completed (processingProgress t) + length (pending t) = total_count (processingProgress t)"
  proof
    assume "run init_app evs = Some t"
    with init have "counter_inv t" by (rule counter_run)
    then show "completed (processingProgress t) \<le> total_count (processingProgress t)
        \<and> completed (processingProgress t) + length (pending t) = total_count (processingProgress t)"
      by (simp add: counter_inv_def)
  qed
  from batch settle enabled reach show ?thesis by blast
qed

theorem progress_counter_witness:
  "total_count (processingProgress (handleFilesSelected [ex_upload ''x'', ex_upload ''y''] ex_state)) = 4
   \<and> completed (processingProgress (handleFilesSelected [ex_upload ''x'', ex_upload ''y''] ex_state)) = 1
   \<and> (\<exists>s'. processPhotoContent_settled ''a'' (Resolved ex_details) ex_state = Some s'
           \<and> completed (processingProgress s') = 2 \<and> total_count (processingProgress s') = 2)
   \<and> ''a'' \<in> set (pending ex_state)
   \<and> (\<exists>t. run init_app ex_trace = Some t
          \<and> completed (processingProgress t) \<le> total_count (processingProgress t)
          \<and> pending t = [''c''])"
proof -
  obtain t where t: "run init_app ex_trace = Some t" "pending t = [''c'']"
    using run_ex_trace by blast
  have pend: "''a'' \<in> set (pending ex_state)"
    by (simp add: ex_state_def)
  then obtain s' where s': "processPhotoContent_settled ''a'' (Resolved ex_details) ex_state = Some s'"
    by (simp add: processPhotoContent_settled_def)
  have vals: "total_count (processingProgress ex_state) = 2" "completed (processingProgress ex_state) = 1"
    by (simp_all add: ex_state_def)
  show ?thesis
    using progress_counter [of "[ex_upload ''x'', ex_upload ''y'']" ex_state "''a''"
        "Resolved ex_details" s' ex_trace t] t s' pend vals
    by simp
qed

section \<open>Loading and error exclude each other\<close>

lemma exclusive_step:
  "list_all exclusive (photos s) \<Longrightarrow> step s ev = Some s' \<Longrightarrow> list_all exclusive (photos s')"
  by (cases ev)
    (auto simp: list_all_iff handleFilesSelected_def add_photos_def newPhoto_def exclusive_def
      truthy_def processPhotoContent_settled_def applyEnrichment_def enrich_success_def
      enrich_failure_def handleTitleChange_def handleCaptionChange_def handleTagsChange_def
      handleDeletePhoto_def confirmDelete_app_def confirmDelete_def cancelDelete_def
      handleSaveAlbumName_def handleAlbumNameChange_app_def handleAlbumNameChange_def
      confirmNewPhotobook_def import_photos_def imported_ok_def Let_def progress_timeout_def
      split: if_splits option.splits outcome.splits)

lemma exclusive_run:
  "list_all exclusive (photos s) \<Longrightarrow> run s evs = Some s' \<Longrightarrow> list_all exclusive (photos s')"
proof (induction evs arbitrary: s)
  case Nil
  then show ?case by simp
next
  case (Cons ev evs)
  then show ?case by (auto split: option.splits dest: exclusive_step)
qed

text \<open>
  C4. In every state reached from the initial one no record has \<open>isLoading\<close> true
  together with a non-empty \<open>error\<close>, and every operation keeps it so: the creation of
  records on upload, the success and the failure of an enrichment, the edits of title,
  caption and tags, the delete, and also the album rename, the new photobook and the
  import of records that have neither flag.
\<close>

theorem loading_error_exclusive:
  "(list_all exclusive (photos s) \<and> step s ev = Some s' \<longrightarrow> list_all exclusive (photos s'))
   \<and> (run init_app evs = Some t \<and> p \<in> set (photos t) \<longrightarrow> \<not> (isLoading p \<and> truthy (error p)))"
proof -
  have "list_all exclusive (photos init_app)"
    by (simp add: init_app_def)
  then have "run init_app evs = Some t \<Longrightarrow> list_all exclusive (photos t)"
    by (rule exclusive_run)
  then have "run init_app evs = Some t \<and> p \<in> set (photos t) \<longrightarrow> \<not> (isLoading p \<and> truthy (error p))"
    by (auto simp: list_all_iff exclusive_def)
  then show ?thesis
    using exclusive_step by blast
qed

lemma run_ex_trace_photos:
  "\<exists>t. run init_app ex_trace = Some t \<and> list_ex (\<lambda>p. truthy (error p)) (photos t)"
  by (simp add: ex_trace_def init_app_def handleFilesSelected_def processPhotoContent_settled_def
      ex_upload_def newPhoto_def add_photos_def applyEnrichment_def enrich_failure_def
      enrich_success_def errorMessage_def truthy_def)

theorem loading_error_exclusive_witness:
  "list_all exclusive (photos ex_state)
   \<and> (\<exists>s'. step ex_state (Settled ''a'' (Rejected OtherValue)) = Some s'
           \<and> list_all exclusive (photos s') \<and> list_all (\<lambda>p. truthy (error p)) (photos s'))
   \<and> (\<exists>t p. run init_app ex_trace = Some t \<and> p \<in> set (photos t) \<and> truthy (error p)
           \<and> \<not> (isLoading p \<and> truthy (error p)))"
proof -
  have a: "list_all exclusive (photos ex_state)"
    by (simp add: ex_state_def ex_photo_def exclusive_def truthy_def)
  obtain s' where s': "step ex_state (Settled ''a'' (Rejected OtherValue)) = Some s'"
    and err: "list_all (\<lambda>p. truthy (error p)) (photos s')"
    by (simp add: ex_state_def processPhotoContent_settled_def applyEnrichment_def
        enrich_failure_def ex_photo_def truthy_def errorMessage_def)
  obtain t p where t: "run init_app ex_trace = Some t"
    and m: "p \<in> set (photos t)" and e: "truthy (error p)"
    using run_ex_trace_photos by (auto simp: list_ex_iff)
  show ?thesis
    using loading_error_exclusive [of ex_state "Settled ''a'' (Rejected OtherValue)" s'
        ex_trace t p] a s' err t e m
    by blast
qed

section \<open>An enrichment result for a record of the registry\<close>

text \<open>
  C3. An enrichment result for an id changes the records with that id and no other: the
  registry keeps its length and order, and a record with another id is as before. On
  success the record has the title, caption, album and tags of the result and is not
  loading any more, and its \<open>error\<close> is not written: it stays unset. On failure the album
  is \<open>Uncategorized\<close>, the tags are empty, \<open>error\<close> is the message of the error (a fixed
  text when the thrown value is not an Error), the record is not loading any more, and
  title and caption are as before. The id, the image and the file stay in both cases.
  When the ids of the registry are distinct, the record at \<open>k\<close> is the only one changed.
\<close>

theorem enrichment_mutates_target:
  "k < length ps \<Longrightarrow>
   length (applyEnrichment i r ps) = length ps
   \<and> (id_photo (ps ! k) \<noteq> i \<longrightarrow> applyEnrichment i r ps ! k = ps ! k)
   \<and> (id_photo (ps ! k) = i \<longrightarrow>
        id_photo (applyEnrichment i r ps ! k) = i
        \<and> src (applyEnrichment i r ps ! k) = src (ps ! k)
        \<and> file_photo (applyEnrichment i r ps ! k) = file_photo (ps ! k)
        \<and> \<not> isLoading (applyEnrichment i r ps ! k)
        \<and> (case r of
              Resolved d \<Rightarrow>
                title (applyEnrichment i r ps ! k) = d_title d
                \<and> caption (applyEnrichment i r ps ! k) = d_caption d
                \<and> album (applyEnrichment i r ps ! k) = d_album d
                \<and> tags (applyEnrichment i r ps ! k) = d_tags d
                \<and> error (applyEnrichment i r ps ! k) = error (ps ! k)
                \<and> (error (ps ! k) = None \<longrightarrow> error (applyEnrichment i r ps ! k) = None)
            | Rejected e \<Rightarrow>
                album (applyEnrichment i r ps ! k) = ''Uncategorized''
                \<and> tags (applyEnrichment i r ps ! k) = []
                \<and> error (applyEnrichment i r ps ! k) = Some (errorMessage e)
                \<and> title (applyEnrichment i r ps ! k) = title (ps ! k)
                \<and> caption (applyEnrichment i r ps ! k) = caption (ps ! k)))
   \<and> (distinct (map id_photo ps) \<and> id_photo (ps ! k) = i \<longrightarrow>
        (\<forall>j. j < length ps \<and> j \<noteq> k \<longrightarrow> applyEnrichment i r ps ! j = ps ! j))"
proof -
  assume k: "k < length ps"
  have one: "distinct (map id_photo ps) \<and> id_photo (ps ! k) = i \<longrightarrow>
        (\<forall>j. j < length ps \<and> j \<noteq> k \<longrightarrow> applyEnrichment i r ps ! j = ps ! j)"
  proof (intro impI allI)
    fix j
    assume d: "distinct (map id_photo ps) \<and> id_photo (ps ! k) = i"
      and j: "j < length ps \<and> j \<noteq> k"
    with k have "map id_photo ps ! j \<noteq> map id_photo ps ! k"
      by (simp add: nth_eq_iff_index_eq del: nth_map)
    with d j k have "id_photo (ps ! j) \<noteq> i" by simp
    with j show "applyEnrichment i r ps ! j = ps ! j"
      by (cases r) (simp_all add: applyEnrichment_def enrich_success_def enrich_failure_def)
  qed
  from k one show ?thesis
    by (cases r) (simp_all add: applyEnrichment_def enrich_success_def enrich_failure_def)
qed

theorem enrichment_mutates_target_witness:
  "(1::nat) < length [ex_photo ''a'' [] True, ex_photo ''b'' [] True]
   \<and> distinct (map id_photo [ex_photo ''a'' [] True, ex_photo ''b'' [] True])
   \<and> applyEnrichment ''b'' (Resolved ex_details) [ex_photo ''a'' [] True, ex_photo ''b'' [] True] ! 0
       = ex_photo ''a'' [] True
   \<and> title (applyEnrichment ''b'' (Resolved ex_details)
        [ex_photo ''a'' [] True, ex_photo ''b'' [] True] ! 1) = ''Dusk''
   \<and> error (applyEnrichment ''b'' (Resolved ex_details)
        [ex_photo ''a'' [] True, ex_photo ''b'' [] True] ! 1) = None
   \<and> error (applyEnrichment ''b'' (Rejected (ErrorObj ''Failed to generate content from AI. Please try again.''))
        [ex_photo ''a'' [] True, ex_photo ''b'' [] True] ! 1)
       = Some ''Failed to generate content from AI. Please try again.''"
proof -
  let ?ps = "[ex_photo ''a'' [] True, ex_photo ''b'' [] True]"
  have l0: "(0::nat) < length ?ps" and l1: "(1::nat) < length ?ps"
    by simp_all
  have ids: "id_photo (?ps ! 0) \<noteq> ''b''" "id_photo (?ps ! 1) = ''b''" "error (?ps ! 1) = None"
    "distinct (map id_photo ?ps)"
    by (simp_all add: ex_photo_def)
  show ?thesis
    using enrichment_mutates_target [OF l0, of "''b''" "Resolved ex_details"]
      enrichment_mutates_target [OF l1, of "''b''" "Resolved ex_details"]
      enrichment_mutates_target [OF l1, of "''b''"
        "Rejected (ErrorObj ''Failed to generate content from AI. Please try again.'')"]
      ids l1
    by (simp add: ex_details_def errorMessage_def)
qed

section \<open>The album projection: what it returns and when it throws\<close>

lemma push_to_keys: "map fst (push_to n p g) = map fst g"
  by (induction g) (auto simp: push_to_def)

lemma map_of_push_to:
  "map_of (push_to n p g) k = (if k = n then map_option (\<lambda>arr. arr @ [p]) (map_of g n) else map_of g k)"
  by (induction g) (auto simp: push_to_def)

lemma group_photo_keys:
  "group_photo p g = Inr g' \<Longrightarrow> distinct (map fst g) \<Longrightarrow> distinct (map fst g')"
  by (auto simp: group_photo_def Let_def push_to_keys map_of_eq_None_iff
      split: option.splits if_splits)

lemma group_photo_lookup:
  assumes "group_photo p g = Inr g'"
  shows "map_of g' k = (if k = albumName p
                  then Some (case map_of g k of None \<Rightarrow> [p] | Some arr \<Rightarrow> arr @ [p])
                  else map_of g k)"
proof (cases "map_of g (albumName p)")
  case None
  with assms have g': "g' = g @ [(albumName p, [p])]"
    by (simp add: group_photo_def Let_def split: if_splits)
  show ?thesis
    unfolding g' using None by (simp add: map_add_def split: option.splits)
next
  case (Some arr)
  with assms have g': "g' = push_to (albumName p) p g"
    by (simp add: group_photo_def Let_def)
  show ?thesis
    unfolding g' using Some by (simp add: map_of_push_to)
qed

lemma group_photos_keys:
  "group_photos ps g = Inr g' \<Longrightarrow> distinct (map fst g) \<Longrightarrow> distinct (map fst g')"
proof (induction ps arbitrary: g)
  case Nil
  then show ?case by simp
next
  case (Cons p ps)
  then show ?case
    by (auto split: sum.splits dest: group_photo_keys)
qed

lemma group_photos_lookup:
  "group_photos ps g = Inr g' \<Longrightarrow>
   map_of g' k =
     (case map_of g k of
        Some arr \<Rightarrow> Some (arr @ filter (\<lambda>p. albumName p = k) ps)
      | None \<Rightarrow> if filter (\<lambda>p. albumName p = k) ps = [] then None
                else Some (filter (\<lambda>p. albumName p = k) ps))"
proof (induction ps arbitrary: g)
  case Nil
  then show ?case by (simp split: option.splits)
next
  case (Cons p ps)
  from Cons.prems obtain g1 where g1: "group_photo p g = Inr g1" and rest: "group_photos ps g1 = Inr g'"
    by (auto split: sum.splits)
  show ?case
    unfolding Cons.IH [OF rest] group_photo_lookup [OF g1]
    by (auto split: option.splits)
qed

lemma object_entries_set: "set (object_entries g) = set g"
  by (auto simp: object_entries_def)

lemma object_entries_keys:
  "distinct (map fst g) \<Longrightarrow> distinct (map fst (object_entries g))"
  by (auto simp: object_entries_def distinct_map inj_on_def)

lemma insert_entry_set: "set (insert_entry cmp x ys) = insert x (set ys)"
  by (induction ys) auto

lemma sort_entries_set: "set (sort_entries cmp xs) = set xs"
  by (induction xs) (simp_all add: sort_entries_def insert_entry_set)

lemma insert_entry_keys:
  "distinct (map fst (insert_entry cmp x ys)) = (fst x \<notin> fst ` set ys \<and> distinct (map fst ys))"
  by (induction ys) (auto simp: insert_entry_set)

lemma sort_entries_keys:
  "distinct (map fst (sort_entries cmp xs)) = distinct (map fst xs)"
  by (induction xs) (simp_all add: sort_entries_def insert_entry_keys sort_entries_set [unfolded sort_entries_def])

lemma insert_entry_sorted:
  "consistent cmp \<Longrightarrow> sorted_by cmp (map fst ys) \<Longrightarrow> sorted_by cmp (map fst (insert_entry cmp x ys))"
proof (induction ys)
  case Nil
  then show ?case by simp
next
  case (Cons y ys)
  from Cons.prems(1) have total: "\<And>a b. cmp a b \<le> 0 \<or> cmp b a \<le> 0"
    and trans: "\<And>a b c. cmp a b \<le> 0 \<Longrightarrow> cmp b c \<le> 0 \<Longrightarrow> cmp a c \<le> 0"
    unfolding consistent_def by blast+
  show ?case
  proof (cases "cmp (fst x) (fst y) \<le> 0")
    case True
    with Cons.prems(2) trans show ?thesis
      by (auto simp: list_all_iff)
  next
    case False
    with total have yx: "cmp (fst y) (fst x) \<le> 0" by blast
    from Cons have "sorted_by cmp (map fst (insert_entry cmp x ys))" by simp
    with False yx Cons.prems(2) show ?thesis
      by (auto simp: list_all_iff insert_entry_set)
  qed
qed

lemma sort_entries_sorted:
  "consistent cmp \<Longrightarrow> sorted_by cmp (map fst (sort_entries cmp xs))"
  by (induction xs) (simp_all add: sort_entries_def insert_entry_sorted)

lemma albums_lookup:
  assumes "albums cmp ps = Inr gs"
  shows "distinct (map fst gs)"
    and "map_of gs k = (if filter (\<lambda>p. albumName p = k) ps = [] then None
                        else Some (filter (\<lambda>p. albumName p = k) ps))"
proof -
  from assms obtain g where g: "group_photos ps [] = Inr g"
    and gs: "gs = sort_entries cmp (object_entries g)"
    by (auto simp: albums_def split: sum.splits)
  from g have dg: "distinct (map fst g)"
    by (rule group_photos_keys) simp
  then show d: "distinct (map fst gs)"
    by (simp add: gs sort_entries_keys object_entries_keys)
  have "set gs = set g"
    by (simp add: gs sort_entries_set object_entries_set)
  with d dg have "map_of gs = map_of g"
    by (simp add: map_of_inject_set)
  then show "map_of gs k = (if filter (\<lambda>p. albumName p = k) ps = [] then None
                        else Some (filter (\<lambda>p. albumName p = k) ps))"
    using group_photos_lookup [OF g, of k] by simp
qed

lemma albums_sorted:
  "albums cmp ps = Inr gs \<Longrightarrow> consistent cmp \<Longrightarrow> sorted_by cmp (map fst gs)"
  by (auto simp: albums_def sort_entries_sorted split: sum.splits)

lemma group_photo_fails:
  "fst ` set g \<inter> set object_prototype_keys = {} \<Longrightarrow>
   (group_photo p g = Inl TypeError) = (albumName p \<in> set object_prototype_keys)"
  by (auto simp: group_photo_def Let_def map_of_eq_None_iff split: option.splits dest!: map_of_SomeD)

lemma group_photo_clean:
  assumes "fst ` set g \<inter> set object_prototype_keys = {}" and "group_photo p g = Inr g'"
  shows "fst ` set g' \<inter> set object_prototype_keys = {}"
proof (cases "map_of g (albumName p)")
  case None
  with assms(2) have "g' = g @ [(albumName p, [p])]" "albumName p \<notin> set object_prototype_keys"
    by (simp_all add: group_photo_def Let_def split: if_splits)
  with assms(1) show ?thesis by auto
next
  case (Some arr)
  with assms(2) have "g' = push_to (albumName p) p g"
    by (simp add: group_photo_def Let_def)
  then have "set (map fst g') = set (map fst g)"
    by (simp only: push_to_keys)
  with assms(1) show ?thesis by simp
qed

lemma group_photos_fails:
  "fst ` set g \<inter> set object_prototype_keys = {} \<Longrightarrow>
   (group_photos ps g = Inl TypeError) = (\<exists>p \<in> set ps. albumName p \<in> set object_prototype_keys)"
proof (induction ps arbitrary: g)
  case Nil
  then show ?case by simp
next
  case (Cons p ps)
  show ?case
  proof (cases "group_photo p g")
    case (Inl e)
    then have f: "group_photo p g = Inl TypeError" by (cases e) simp
    then have "albumName p \<in> set object_prototype_keys"
      using group_photo_fails [OF Cons.prems, of p] by simp
    with f show ?thesis by simp
  next
    case (Inr g1)
    with Cons.prems have "fst ` set g1 \<inter> set object_prototype_keys = {}"
      by (auto dest: group_photo_clean)
    from Cons.IH [OF this] Inr show ?thesis
      using group_photo_fails [OF Cons.prems, of p] by simp
  qed
qed

lemma albums_fails:
  "(albums cmp ps = Inl TypeError) = (\<exists>p \<in> set ps. albumName p \<in> set object_prototype_keys)"
  using group_photos_fails [of "[]" ps]
  by (auto simp: albums_def split: sum.splits)

section \<open>Album rename\<close>

lemma rename_Nature_Family:
  "handleAlbumNameChange ''Nature'' ''Family'' ps
     = map (\<lambda>p. if album p = ''Nature'' then p\<lparr>album := ''Family''\<rparr> else p) ps"
  by (simp add: handleAlbumNameChange_def trim_def is_ws_def)

lemma Family_after_rename:
  "filter (\<lambda>p. albumName p = ''Family'')
      (map (\<lambda>p. if album p = ''Nature'' then p\<lparr>album := ''Family''\<rparr> else p) ps)
   = map (\<lambda>p. p\<lparr>album := ''Family''\<rparr>)
       (filter (\<lambda>p. album p = ''Nature'' \<or> album p = ''Family'') ps)"
  by (induction ps) (auto simp: albumName_def)

lemma Nature_after_rename:
  "filter (\<lambda>p. albumName p = ''Nature'')
      (map (\<lambda>p. if album p = ''Nature'' then p\<lparr>album := ''Family''\<rparr> else p) ps) = []"
  by (induction ps) (auto simp: albumName_def)

text \<open>
  C6. An album rename whose new name is empty after trimming leaves the registry as it
  is. Otherwise the registry keeps its length and order, every record whose album is
  exactly the old name gets the trimmed new name as its album and keeps every other field,
  and every other record is as before. Renaming \<open>Nature\<close> to \<open>Family\<close>: the projection
  then has no group \<open>Nature\<close>, and its group \<open>Family\<close> holds, in registry order, every
  record that was in \<open>Nature\<close> or in \<open>Family\<close>.
\<close>

theorem album_rename:
  "(trim newName = [] \<longrightarrow> handleAlbumNameChange oldName newName ps = ps)
   \<and> (trim newName \<noteq> [] \<longrightarrow>
        length (handleAlbumNameChange oldName newName ps) = length ps
        \<and> (\<forall>k. k < length ps \<longrightarrow>
              handleAlbumNameChange oldName newName ps ! k
                = (if album (ps ! k) = oldName then (ps ! k)\<lparr>album := trim newName\<rparr>
                   else ps ! k)))
   \<and> (albums localeCompare (handleAlbumNameChange ''Nature'' ''Family'' ps) = Inr gs \<longrightarrow>
        map_of gs ''Nature'' = None
        \<and> map_of gs ''Family''
            = (if filter (\<lambda>p. album p = ''Nature'' \<or> album p = ''Family'') ps = [] then None
               else Some (map (\<lambda>p. p\<lparr>album := ''Family''\<rparr>)
                           (filter (\<lambda>p. album p = ''Nature'' \<or> album p = ''Family'') ps))))"
proof -
  have noop: "trim newName = [] \<longrightarrow> handleAlbumNameChange oldName newName ps = ps"
    by (simp add: handleAlbumNameChange_def)
  have upd: "trim newName \<noteq> [] \<longrightarrow>
        length (handleAlbumNameChange oldName newName ps) = length ps
        \<and> (\<forall>k. k < length ps \<longrightarrow>
              handleAlbumNameChange oldName newName ps ! k
                = (if album (ps ! k) = oldName then (ps ! k)\<lparr>album := trim newName\<rparr>
                   else ps ! k))"
    by (simp add: handleAlbumNameChange_def)
  have merge: "albums localeCompare (handleAlbumNameChange ''Nature'' ''Family'' ps) = Inr gs \<longrightarrow>
        map_of gs ''Nature'' = None
        \<and> map_of gs ''Family''
            = (if filter (\<lambda>p. album p = ''Nature'' \<or> album p = ''Family'') ps = [] then None
               else Some (map (\<lambda>p. p\<lparr>album := ''Family''\<rparr>)
                           (filter (\<lambda>p. album p = ''Nature'' \<or> album p = ''Family'') ps)))"
  proof
    assume a: "albums localeCompare (handleAlbumNameChange ''Nature'' ''Family'' ps) = Inr gs"
    show "map_of gs ''Nature'' = None
        \<and> map_of gs ''Family''
            = (if filter (\<lambda>p. album p = ''Nature'' \<or> album p = ''Family'') ps = [] then None
               else Some (map (\<lambda>p. p\<lparr>album := ''Family''\<rparr>)
                           (filter (\<lambda>p. album p = ''Nature'' \<or> album p = ''Family'') ps)))"
      unfolding albums_lookup(2) [OF a] rename_Nature_Family Family_after_rename
        Nature_after_rename
      by simp
  qed
  from noop upd merge show ?thesis by blast
qed

lemma albums_ex_renamed:
  "albums ex_compare (handleAlbumNameChange ''Nature'' ''Family'' ex_registry)
     = Inr [(''...'', [ex_photo ''d'' [] True]),
            (''Family'', [ex_photo ''a'' ''Family'' False, ex_photo ''b'' ''Family'' False]),
            (''Uncategorized'', [ex_photo ''c'' [] False, ex_photo ''e'' ''Uncategorized'' False])]"
  by (simp add: rename_Nature_Family ex_registry_def albums_def group_photo_def albumName_def
      ex_photo_def object_prototype_keys_def push_to_def object_entries_def is_array_index_def
      is_digit_def sort_entries_def ex_compare_def Let_def)

theorem album_rename_witness:
  "trim ''   '' = [] \<and> handleAlbumNameChange ''Nature'' ''   '' ex_registry = ex_registry
   \<and> trim '' Family  '' = ''Family''
   \<and> map album (handleAlbumNameChange ''Nature'' '' Family  '' ex_registry)
       = [''Family'', ''Family'', [], [], ''Uncategorized'']
   \<and> (\<exists>gs. albums ex_compare (handleAlbumNameChange ''Nature'' ''Family'' ex_registry) = Inr gs
        \<and> map_of gs ''Nature'' = None
        \<and> map_of gs ''Family''
            = Some [ex_photo ''a'' ''Family'' False, ex_photo ''b'' ''Family'' False])"
proof -
  have t1: "trim ''   '' = []" and t2: "trim '' Family  '' = ''Family''"
    by (simp_all add: trim_def is_ws_def)
  obtain gs where gs: "albums ex_compare (handleAlbumNameChange ''Nature'' ''Family'' ex_registry) = Inr gs"
    using albums_ex_renamed by simp
  have fam: "map (\<lambda>p. p\<lparr>album := ''Family''\<rparr>)
       (filter (\<lambda>p. album p = ''Nature'' \<or> album p = ''Family'') ex_registry)
     = [ex_photo ''a'' ''Family'' False, ex_photo ''b'' ''Family'' False]"
    by (simp add: ex_registry_def ex_photo_def)
  have r: "map album (handleAlbumNameChange ''Nature'' '' Family  '' ex_registry)
       = [''Family'', ''Family'', [], [], ''Uncategorized'']"
    by (simp add: handleAlbumNameChange_def t2 ex_registry_def ex_photo_def Let_def)
  show ?thesis
    using album_rename [of "''   ''" "''Nature''" ex_registry ex_compare gs]
      album_rename [of "'' Family  ''" "''Nature''" ex_registry ex_compare gs]
      t1 t2 gs fam r
    by auto
qed

section \<open>Renaming a placeholder group\<close>

lemma albums_member:
  assumes "albums cmp ps = Inr gs" and "p \<in> set ps"
  shows "\<exists>xs. map_of gs (albumName p) = Some xs \<and> p \<in> set xs"
proof -
  from assms(2) have "p \<in> set (filter (\<lambda>q. albumName q = albumName p) ps)"
    by simp
  moreover from this have "filter (\<lambda>q. albumName q = albumName p) ps \<noteq> []"
    by (metis empty_iff list.set(1))
  ultimately show ?thesis
    unfolding albums_lookup(2) [OF assms(1)] by simp
qed

text \<open>
  C10. A record whose stored album is the empty string is displayed under a placeholder,
  \<open>...\<close> while it is loading and \<open>Uncategorized\<close> otherwise. Renaming the group it is
  displayed under, that is an album rename with that placeholder as the old name, leaves
  the record as it is, whatever the new name: its displayed name is still the
  placeholder, and it is in the projection's group of that name. The rename changes only
  records whose stored album is exactly the old name.
\<close>

theorem placeholder_rename_keeps_unassigned:
  "k < length ps \<Longrightarrow> album (ps ! k) = [] \<Longrightarrow> oldName = albumName (ps ! k) \<Longrightarrow>
   (oldName = ''...'' \<or> oldName = ''Uncategorized'')
   \<and> handleAlbumNameChange oldName newName ps ! k = ps ! k
   \<and> albumName (handleAlbumNameChange oldName newName ps ! k) = oldName
   \<and> (albums localeCompare (handleAlbumNameChange oldName newName ps) = Inr gs \<longrightarrow>
        (\<exists>xs. map_of gs oldName = Some xs \<and> ps ! k \<in> set xs))
   \<and> (\<forall>j. j < length ps \<and> handleAlbumNameChange oldName newName ps ! j \<noteq> ps ! j \<longrightarrow>
          album (ps ! j) = oldName)"
proof -
  assume k: "k < length ps" and empty: "album (ps ! k) = []" and old: "oldName = albumName (ps ! k)"
  from empty old have name: "oldName = ''...'' \<or> oldName = ''Uncategorized''"
    by (simp add: albumName_def)
  then have ne: "album (ps ! k) \<noteq> oldName"
    using empty by auto
  have len: "length (handleAlbumNameChange oldName newName ps) = length ps"
    by (simp add: handleAlbumNameChange_def Let_def)
  from k ne have same: "handleAlbumNameChange oldName newName ps ! k = ps ! k"
    by (simp add: handleAlbumNameChange_def Let_def)
  have shown: "albumName (handleAlbumNameChange oldName newName ps ! k) = oldName"
    using same old by simp
  have group: "albums localeCompare (handleAlbumNameChange oldName newName ps) = Inr gs \<longrightarrow>
        (\<exists>xs. map_of gs oldName = Some xs \<and> ps ! k \<in> set xs)"
  proof
    assume a: "albums localeCompare (handleAlbumNameChange oldName newName ps) = Inr gs"
    have "ps ! k \<in> set (handleAlbumNameChange oldName newName ps)"
      using k len same by (metis nth_mem)
    from albums_member [OF a this] show "\<exists>xs. map_of gs oldName = Some xs \<and> ps ! k \<in> set xs"
      by (simp add: old)
  qed
  have only: "\<forall>j. j < length ps \<and> handleAlbumNameChange oldName newName ps ! j \<noteq> ps ! j \<longrightarrow>
          album (ps ! j) = oldName"
    by (auto simp: handleAlbumNameChange_def Let_def split: if_splits)
  from name same shown group only show ?thesis by blast
qed

lemma albums_ex_placeholder_renamed:
  "albums ex_compare (handleAlbumNameChange ''Uncategorized'' ''Misc'' ex_registry)
     = Inr [(''...'', [ex_photo ''d'' [] True]),
            (''Family'', [ex_photo ''b'' ''Family'' False]),
            (''Misc'', [ex_photo ''e'' ''Misc'' False]),
            (''Nature'', [ex_photo ''a'' ''Nature'' False]),
            (''Uncategorized'', [ex_photo ''c'' [] False])]"
  by (simp add: handleAlbumNameChange_def trim_def is_ws_def ex_registry_def albums_def
      group_photo_def albumName_def ex_photo_def object_prototype_keys_def push_to_def
      object_entries_def is_array_index_def is_digit_def sort_entries_def ex_compare_def Let_def)

theorem placeholder_rename_keeps_unassigned_witness:
  "(2::nat) < length ex_registry \<and> album (ex_registry ! 2) = []
   \<and> albumName (ex_registry ! 2) = ''Uncategorized''
   \<and> handleAlbumNameChange ''Uncategorized'' ''Misc'' ex_registry ! 2 = ex_photo ''c'' [] False
   \<and> handleAlbumNameChange ''Uncategorized'' ''Misc'' ex_registry ! 4 = ex_photo ''e'' ''Misc'' False
   \<and> (\<exists>gs xs. albums ex_compare (handleAlbumNameChange ''Uncategorized'' ''Misc'' ex_registry) = Inr gs
         \<and> map_of gs ''Uncategorized'' = Some xs \<and> ex_photo ''c'' [] False \<in> set xs)"
proof -
  have k: "(2::nat) < length ex_registry" and e: "album (ex_registry ! 2) = []"
    and n: "''Uncategorized'' = albumName (ex_registry ! 2)"
    and c: "ex_registry ! 2 = ex_photo ''c'' [] False"
    by (simp_all add: ex_registry_def ex_photo_def albumName_def)
  have other: "handleAlbumNameChange ''Uncategorized'' ''Misc'' ex_registry ! 4 = ex_photo ''e'' ''Misc'' False"
    by (simp add: handleAlbumNameChange_def trim_def is_ws_def ex_registry_def ex_photo_def Let_def)
  obtain gs where gs: "albums ex_compare (handleAlbumNameChange ''Uncategorized'' ''Misc'' ex_registry) = Inr gs"
    using albums_ex_placeholder_renamed by simp
  show ?thesis
    using placeholder_rename_keeps_unassigned [OF k e n, of "''Misc''" ex_compare gs] k e n c other gs
    by auto
qed

section \<open>The album projection on an inherited property name\<close>

text \<open>
  When no displayed name is the name of a property of \<^verbatim>\<open>Object.prototype\<close>, the
  projection returns: one group per displayed name, holding the records of that name in
  registry order, a record with no album under \<open>...\<close> while it is loading and under
  \<open>Uncategorized\<close> otherwise, the groups ordered by the comparison when it is a
  consistent one.
\<close>

lemma albums_groups_sorted:
  assumes "\<And>p. p \<in> set ps \<Longrightarrow> albumName p \<notin> set object_prototype_keys"
  shows "\<exists>gs. albums cmp ps = Inr gs \<and> distinct (map fst gs)
           \<and> (\<forall>k. map_of gs k = (if filter (\<lambda>p. albumName p = k) ps = [] then None
                                 else Some (filter (\<lambda>p. albumName p = k) ps)))
           \<and> (consistent cmp \<longrightarrow> sorted_by cmp (map fst gs))"
proof -
  from assms have "albums cmp ps \<noteq> Inl TypeError"
    by (auto simp: albums_fails)
  then obtain gs where gs: "albums cmp ps = Inr gs"
    by (cases "albums cmp ps") (metis js_error.exhaust, simp)
  with albums_lookup [OF gs] albums_sorted [OF gs] show ?thesis
    by blast
qed

text \<open>
  C9. The projection is a function of the registry and the comparison only, but not a
  total one. On a record whose album is \<open>constructor\<close> (or \<open>toString\<close>, or any other
  name that \<^verbatim>\<open>Object.prototype\<close> defines) the lookup \<^verbatim>\<open>grouped[albumName]\<close> finds the
  inherited property, the group is not created, and \<^verbatim>\<open>push\<close> on the inherited value
  throws a TypeError: the records are not grouped. Such a registry is reached by an upload
  whose enrichment succeeds, followed by an inline rename of its album to \<open>toString\<close>.
\<close>

theorem albums_inherited_name_throws:
  "albums localeCompare [ex_photo ''a'' ''constructor'' False] = Inl TypeError
   \<and> (\<exists>t. run init_app [FilesSelected [ex_upload ''a''], Settled ''a'' (Resolved ex_details),
                         StartEditAlbum ''Nature'', AlbumInput ''toString'', SaveAlbumName] = Some t
          \<and> map album (photos t) = [''toString'']
          \<and> albums localeCompare (photos t) = Inl TypeError)"
  by (simp add: albums_def group_photo_def albumName_def ex_photo_def object_prototype_keys_def
      init_app_def handleFilesSelected_def processPhotoContent_settled_def
      ex_upload_def newPhoto_def add_photos_def applyEnrichment_def
      enrich_success_def ex_details_def handleSaveAlbumName_def handleAlbumNameChange_app_def
      handleAlbumNameChange_def trim_def is_ws_def Let_def)

section \<open>Tags\<close>

lemma add_tag_registry:
  "k < length ps \<Longrightarrow>
   snd (on_card handleAddTag k c ps)
     = (if trim (tagInput c) \<noteq> [] \<and> trim (tagInput c) \<notin> set (tags (ps ! k))
        then handleTagsChange (id_photo (ps ! k)) (tags (ps ! k) @ [trim (tagInput c)]) ps
        else ps)"
  by (simp add: on_card_def handleAddTag_def Let_def)

lemma add_tag_tags:
  "k < length ps \<Longrightarrow>
   tags (snd (on_card handleAddTag k c ps) ! k)
     = (if trim (tagInput c) \<noteq> [] \<and> trim (tagInput c) \<notin> set (tags (ps ! k))
        then tags (ps ! k) @ [trim (tagInput c)]
        else tags (ps ! k))"
  by (simp add: add_tag_registry handleTagsChange_def)

lemma add_tag_length: "length (snd (on_card handleAddTag k c ps)) = length ps"
  by (simp add: on_card_def handleAddTag_def Let_def handleTagsChange_def)

lemma remove_tag_tags:
  "k < length ps \<Longrightarrow>
   tags (snd (on_card (\<lambda>ph. handleRemoveTag ph u) k c ps) ! k) = filter (\<lambda>tag. tag \<noteq> u) (tags (ps ! k))"
  by (simp add: on_card_def handleRemoveTag_def handleTagsChange_def)

lemma count_list_absent: "x \<notin> set xs \<Longrightarrow> count_list xs x = 0"
  by (induction xs) auto

text \<open>
  C7. On the card of the \<open>k\<close>-th record, adding a tag that the record already has
  (the trimmed input, compared as a string, so case matters) calls no callback: the
  registry is as before. So a tag list without duplicates stays without duplicates, and
  adding the same tag twice leaves one entry of it when it was not there (and the entries
  there were when it was). Removing a tag that the record does not have leaves its tag
  list as it is.
\<close>

theorem tag_add_remove:
  "k < length ps \<Longrightarrow> trim (tagInput c) = t \<Longrightarrow> trim (tagInput c') = t \<Longrightarrow>
   (t \<in> set (tags (ps ! k)) \<longrightarrow> snd (on_card handleAddTag k c ps) = ps)
   \<and> (distinct (tags (ps ! k)) \<longrightarrow> distinct (tags (snd (on_card handleAddTag k c ps) ! k)))
   \<and> (t \<noteq> [] \<longrightarrow>
        count_list (tags (snd (on_card handleAddTag k c' (snd (on_card handleAddTag k c ps))) ! k)) t
          = (if t \<in> set (tags (ps ! k)) then count_list (tags (ps ! k)) t else 1))
   \<and> (u \<notin> set (tags (ps ! k)) \<longrightarrow>
        tags (snd (on_card (\<lambda>ph. handleRemoveTag ph u) k c ps) ! k) = tags (ps ! k))"
proof -
  assume k: "k < length ps" and c: "trim (tagInput c) = t" and c': "trim (tagInput c') = t"
  let ?ps1 = "snd (on_card handleAddTag k c ps)"
  have rejected: "t \<in> set (tags (ps ! k)) \<longrightarrow> ?ps1 = ps"
    using k c by (simp add: add_tag_registry)
  have dist: "distinct (tags (ps ! k)) \<longrightarrow> distinct (tags (?ps1 ! k))"
    using k by (simp add: add_tag_tags)
  have k1: "k < length ?ps1"
    using k by (simp add: add_tag_length)
  have twice: "t \<noteq> [] \<longrightarrow>
        count_list (tags (snd (on_card handleAddTag k c' ?ps1) ! k)) t
          = (if t \<in> set (tags (ps ! k)) then count_list (tags (ps ! k)) t else 1)"
    unfolding add_tag_tags [OF k1] c' using k c
    by (simp add: add_tag_tags count_list_absent)
  have removed: "u \<notin> set (tags (ps ! k)) \<longrightarrow>
        tags (snd (on_card (\<lambda>ph. handleRemoveTag ph u) k c ps) ! k) = tags (ps ! k)"
    using k by (auto simp: remove_tag_tags filter_id_conv)
  from rejected dist twice removed show ?thesis by blast
qed

theorem tag_add_remove_witness:
  "(0::nat) < length [ex_photo ''a'' [] False] \<and> trim (tagInput ex_card) = ''sunset''
   \<and> tags (snd (on_card handleAddTag 0 ex_card [ex_photo ''a'' [] False]) ! 0) = [''beach'', ''sunset'']
   \<and> count_list (tags (snd (on_card handleAddTag 0 ex_card
         (snd (on_card handleAddTag 0 ex_card [ex_photo ''a'' [] False]))) ! 0)) ''sunset'' = 1
   \<and> snd (on_card handleAddTag 0 (ex_card\<lparr>tagInput := ''beach''\<rparr>) [ex_photo ''a'' [] False])
       = [ex_photo ''a'' [] False]
   \<and> tags (snd (on_card handleAddTag 0 (ex_card\<lparr>tagInput := ''Beach''\<rparr>) [ex_photo ''a'' [] False]) ! 0)
       = [''beach'', ''Beach'']
   \<and> tags (snd (on_card (\<lambda>ph. handleRemoveTag ph ''sunset'') 0 ex_card [ex_photo ''a'' [] False]) ! 0)
       = [''beach'']"
proof -
  let ?ps = "[ex_photo ''a'' [] False]"
  have k: "(0::nat) < length ?ps" by simp
  have t: "trim (tagInput ex_card) = ''sunset''"
    and b: "trim (tagInput (ex_card\<lparr>tagInput := ''beach''\<rparr>)) = ''beach''"
    and B: "trim (tagInput (ex_card\<lparr>tagInput := ''Beach''\<rparr>)) = ''Beach''"
    by (simp_all add: ex_card_def trim_def is_ws_def)
  have tg: "tags (?ps ! 0) = [''beach'']"
    by (simp add: ex_photo_def)
  have one: "tags (snd (on_card handleAddTag 0 ex_card ?ps) ! 0) = [''beach'', ''sunset'']"
    using k t tg by (simp add: add_tag_tags)
  have cap: "tags (snd (on_card handleAddTag 0 (ex_card\<lparr>tagInput := ''Beach''\<rparr>) ?ps) ! 0)
       = [''beach'', ''Beach'']"
    using k B tg by (simp add: add_tag_tags del: select_convs)
  show ?thesis
    using tag_add_remove [OF k t t, of "''sunset''"]
      tag_add_remove [OF k b b, of "''sunset''"] k t tg one cap
    by simp
qed

section \<open>Confirming and cancelling an edit\<close>

lemma save_caption_registry:
  "k < length ps \<Longrightarrow>
   snd (on_card handleSaveCaption k c ps)
     = (if trim (editedCaption c) \<noteq> caption (ps ! k)
        then handleCaptionChange (id_photo (ps ! k)) (trim (editedCaption c)) ps else ps)"
  by (simp add: on_card_def handleSaveCaption_def)

lemma save_title_registry:
  "k < length ps \<Longrightarrow>
   snd (on_card handleSaveTitle k c ps)
     = (if trim (editedTitle c) \<noteq> [] \<and> trim (editedTitle c) \<noteq> title (ps ! k)
        then handleTitleChange (id_photo (ps ! k)) (trim (editedTitle c)) ps else ps)"
  by (simp add: on_card_def handleSaveTitle_def)

text \<open>
  C8. On the card of the \<open>k\<close>-th record, confirming the caption edit writes the trimmed
  scratch value to the registry when it differs from the committed caption and writes
  nothing when it is equal; confirming the title edit writes the trimmed scratch value
  when it is non-empty and differs from the committed title, and nothing otherwise. In
  each case the committed value afterwards is the trimmed scratch value, except for an
  empty title, where it is the old title. Cancelling, by the cancel action or by the
  Escape key, leaves the registry as it is, sets the scratch value back to the committed
  one and leaves the edit mode.
\<close>

theorem edit_confirm_cancel:
  "k < length ps \<Longrightarrow>
   snd (on_card handleSaveCaption k c ps)
     = (if trim (editedCaption c) \<noteq> caption (ps ! k)
        then handleCaptionChange (id_photo (ps ! k)) (trim (editedCaption c)) ps else ps)
   \<and> caption (snd (on_card handleSaveCaption k c ps) ! k) = trim (editedCaption c)
   \<and> snd (on_card handleSaveTitle k c ps)
     = (if trim (editedTitle c) \<noteq> [] \<and> trim (editedTitle c) \<noteq> title (ps ! k)
        then handleTitleChange (id_photo (ps ! k)) (trim (editedTitle c)) ps else ps)
   \<and> title (snd (on_card handleSaveTitle k c ps) ! k)
     = (if trim (editedTitle c) = [] then title (ps ! k) else trim (editedTitle c))
   \<and> on_card handleCancelCaption k c ps
     = (c\<lparr>editedCaption := caption (ps ! k), isEditingCaption := False\<rparr>, ps)
   \<and> on_card handleCancelTitle k c ps
     = (c\<lparr>editedTitle := title (ps ! k), isEditingTitle := False\<rparr>, ps)
   \<and> (key ev = ''Escape'' \<longrightarrow>
        on_card (\<lambda>ph. handleCaptionKeyDown ph ev) k c ps = on_card handleCancelCaption k c ps
        \<and> on_card (\<lambda>ph. handleTitleKeyDown ph ev) k c ps = on_card handleCancelTitle k c ps)"
proof -
  assume k: "k < length ps"
  have cap: "caption (snd (on_card handleSaveCaption k c ps) ! k) = trim (editedCaption c)"
    using k by (simp add: save_caption_registry handleCaptionChange_def)
  have tit: "title (snd (on_card handleSaveTitle k c ps) ! k)
     = (if trim (editedTitle c) = [] then title (ps ! k) else trim (editedTitle c))"
    using k by (simp add: save_title_registry handleTitleChange_def)
  have cancel: "on_card handleCancelCaption k c ps
       = (c\<lparr>editedCaption := caption (ps ! k), isEditingCaption := False\<rparr>, ps)"
    "on_card handleCancelTitle k c ps
       = (c\<lparr>editedTitle := title (ps ! k), isEditingTitle := False\<rparr>, ps)"
    using k by (simp_all add: on_card_def handleCancelCaption_def handleCancelTitle_def)
  have esc: "key ev = ''Escape'' \<longrightarrow>
        on_card (\<lambda>ph. handleCaptionKeyDown ph ev) k c ps = on_card handleCancelCaption k c ps
        \<and> on_card (\<lambda>ph. handleTitleKeyDown ph ev) k c ps = on_card handleCancelTitle k c ps"
    by (simp add: on_card_def handleCaptionKeyDown_def handleTitleKeyDown_def)
  from cap tit cancel esc save_caption_registry [OF k] save_title_registry [OF k]
  show ?thesis by blast
qed

theorem edit_confirm_cancel_witness:
  "(0::nat) < length [ex_photo ''a'' [] False]
   \<and> caption (snd (on_card handleSaveCaption 0 ex_card [ex_photo ''a'' [] False]) ! 0) = ''A new caption''
   \<and> snd (on_card handleSaveCaption 0 (ex_card\<lparr>editedCaption := ''C  ''\<rparr>) [ex_photo ''a'' [] False])
       = [ex_photo ''a'' [] False]
   \<and> snd (on_card handleSaveTitle 0 ex_card [ex_photo ''a'' [] False]) = [ex_photo ''a'' [] False]
   \<and> title (snd (on_card handleSaveTitle 0 (ex_card\<lparr>editedTitle := '' Dusk''\<rparr>) [ex_photo ''a'' [] False]) ! 0)
       = ''Dusk''
   \<and> on_card (\<lambda>ph. handleCaptionKeyDown ph \<lparr>key = ''Escape'', metaKey = False, ctrlKey = False\<rparr>) 0
        ex_card [ex_photo ''a'' [] False]
       = (ex_card\<lparr>editedCaption := ''C'', isEditingCaption := False\<rparr>, [ex_photo ''a'' [] False])"
proof -
  let ?ps = "[ex_photo ''a'' [] False]"
  let ?esc = "\<lparr>key = ''Escape'', metaKey = False, ctrlKey = False\<rparr>"
  have k: "(0::nat) < length ?ps" by simp
  have tr: "trim (editedCaption ex_card) = ''A new caption''" "trim (editedTitle ex_card) = []"
    "trim (editedCaption (ex_card\<lparr>editedCaption := ''C  ''\<rparr>)) = ''C''"
    "trim (editedTitle (ex_card\<lparr>editedTitle := '' Dusk''\<rparr>)) = ''Dusk''"
    by (simp_all add: ex_card_def trim_def is_ws_def)
  have tr': "trim ''C  '' = ''C''" "trim '' Dusk'' = ''Dusk''"
    by (simp_all add: trim_def is_ws_def)
  have ph: "caption (?ps ! 0) = ''C''" "title (?ps ! 0) = ''T''"
    by (simp_all add: ex_photo_def)
  have e: "key ?esc = ''Escape''" by simp
  note A = edit_confirm_cancel [OF k, of ex_card ?esc]
  note B = edit_confirm_cancel [OF k, of "ex_card\<lparr>editedCaption := ''C  ''\<rparr>" ?esc]
  note C = edit_confirm_cancel [OF k, of "ex_card\<lparr>editedTitle := '' Dusk''\<rparr>" ?esc]
  from A [THEN conjunct2, THEN conjunct1]
  have c1: "caption (snd (on_card handleSaveCaption 0 ex_card ?ps) ! 0) = ''A new caption''"
    by (simp only: tr)
  from B [THEN conjunct1]
  have c2: "snd (on_card handleSaveCaption 0 (ex_card\<lparr>editedCaption := ''C  ''\<rparr>) ?ps) = ?ps"
    by (simp only: tr ph if_False not_True_eq_False simp_thms)
  from A [THEN conjunct2, THEN conjunct2, THEN conjunct1]
  have c3: "snd (on_card handleSaveTitle 0 ex_card ?ps) = ?ps"
    by (simp only: tr if_False simp_thms)
  from C [THEN conjunct2, THEN conjunct2, THEN conjunct2, THEN conjunct1]
  have c4: "title (snd (on_card handleSaveTitle 0 (ex_card\<lparr>editedTitle := '' Dusk''\<rparr>) ?ps) ! 0)
       = ''Dusk''"
    by (simp add: tr')
  from A [THEN conjunct2, THEN conjunct2, THEN conjunct2, THEN conjunct2] e
  have c5: "on_card (\<lambda>ph. handleCaptionKeyDown ph ?esc) 0 ex_card ?ps
       = (ex_card\<lparr>editedCaption := ''C'', isEditingCaption := False\<rparr>, ?ps)"
    by (simp only: ph)
  from k c1 c2 c3 c4 c5 show ?thesis by blast
qed

section \<open>The errors of the enrichment client\<close>

lemma shape_ok_well_shaped: "shape_ok v = Inr True \<longleftrightarrow> well_shaped v"
  by (cases v) (simp_all add: shape_ok_def well_shaped_def read_prop_def typeof_string_def isArray_def)

text \<open>The client returns a value only when it has the shape, and returns every value
  that has it.\<close>

lemma generatePhotoDetails_validates:
  "generatePhotoDetails api_key json_parse rp = Inr result \<Longrightarrow> well_shaped result"
  using shape_ok_well_shaped [of result]
  by (auto simp: generatePhotoDetails_def try_block_def
      split: if_splits sum.splits reply.splits option.splits bool.splits)

lemma generatePhotoDetails_accepts:
  "truthy api_key \<Longrightarrow> json_parse (trim t) = Some v \<Longrightarrow> well_shaped v \<Longrightarrow>
   generatePhotoDetails api_key json_parse (Text t) = Inr v"
  using shape_ok_well_shaped [of v]
  by (simp add: generatePhotoDetails_def try_block_def)

text \<open>Every response that parses and has not the shape is rejected with the message
  of a failed request.\<close>

lemma generatePhotoDetails_malformed:
  "truthy api_key \<Longrightarrow> json_parse (trim t) = Some v \<Longrightarrow> \<not> well_shaped v \<Longrightarrow>
   generatePhotoDetails api_key json_parse (Text t)
     = Inl ''Failed to generate content from AI. Please try again.''"
  using shape_ok_well_shaped [of v]
  by (cases "shape_ok v")
    (auto simp: generatePhotoDetails_def try_block_def shape_ok_def
      split: if_splits bool.splits)

lemma generatePhotoDetails_messages:
  "generatePhotoDetails api_key json_parse rp = Inl m \<Longrightarrow>
   m \<in> {''API_KEY environment variable is not set.'',
        ''Failed to parse AI response. The format was not valid JSON.'',
        ''Failed to generate content from AI. Please try again.''}"
  by (auto simp: generatePhotoDetails_def split: if_splits sum.splits)

text \<open>
  C5. The client checks the shape of the parsed response: title, caption and album
  strings, tags an array. For the response text \<open>{}\<close>, an object with none of the four
  fields, the check fails and line 63 throws an Error with a message of its own,
  \<open>Invalid response format from AI.\<close>; but the throw is inside the \<^verbatim>\<open>try\<close> block, whose
  \<^verbatim>\<open>catch\<close> replaces every exception other than a SyntaxError by one message. The caller
  receives the same error for this response as for a request that failed, while a
  response that is not JSON is told apart.
\<close>

theorem malformed_response_not_distinguished:
  "try_block ex_parse (Text ''{}'') = Inl (ErrorWith ''Invalid response format from AI.'')
   \<and> generatePhotoDetails (Some ''key'') ex_parse (Text ''{}'')
       = Inl ''Failed to generate content from AI. Please try again.''
   \<and> generatePhotoDetails (Some ''key'') ex_parse (Text ''null'')
       = Inl ''Failed to generate content from AI. Please try again.''
   \<and> generatePhotoDetails (Some ''key'') ex_parse (RequestFailed (ServiceError ''503''))
       = Inl ''Failed to generate content from AI. Please try again.''
   \<and> generatePhotoDetails (Some ''key'') ex_parse (Text ''oops'')
       = Inl ''Failed to parse AI response. The format was not valid JSON.''"
  by (simp add: generatePhotoDetails_def try_block_def ex_parse_def shape_ok_def read_prop_def
      typeof_string_def isArray_def truthy_def trim_def is_ws_def)

end
